theory Spec2Isabelle
  imports Complex_Main "HOL-Library.AList" "HOL-Library.Multiset"
begin

section \<open>Data model\<close>

text \<open>
  The browser's \<^verbatim>\<open>File\<close> object, reduced to the three fields the components read:
  \<^verbatim>\<open>file.name\<close>, \<^verbatim>\<open>file.type\<close> and \<^verbatim>\<open>file.size\<close>.
\<close>

record File =
  file_name :: string
  file_type :: string
  file_size :: nat

text \<open>
  \<^verbatim>\<open>interface UploadedImage\<close> (ImageUpload.tsx, lines 6-14). The id is the template string
  \<^verbatim>\<open>`${Date.now()}-${index}`\<close>; it is kept as the pair (timestamp, index), of which the
  string is an injective image. \<^verbatim>\<open>width\<close> and \<^verbatim>\<open>height\<close> are optional fields.
\<close>

record UploadedImage =
  img_id :: "nat \<times> nat"
  img_file :: File
  img_url :: string
  img_name :: string
  img_size :: nat
  img_width :: "nat option"
  img_height :: "nat option"

text \<open>
  The state the two components hold: \<^verbatim>\<open>images\<close>, \<^verbatim>\<open>uploading\<close> and
  \<^verbatim>\<open>uploadProgress\<close> are the \<^verbatim>\<open>useState\<close> cells of \<^verbatim>\<open>ImageUpload\<close>;
  \<^verbatim>\<open>page_images\<close> and \<^verbatim>\<open>selectedImage\<close> are the cells \<^verbatim>\<open>images\<close> and
  \<^verbatim>\<open>selectedImage\<close> of the page component \<^verbatim>\<open>Index\<close>.
\<close>

record app_state =
  images :: "UploadedImage list"
  uploading :: bool
  uploadProgress :: real
  page_images :: "UploadedImage list"
  selectedImage :: "UploadedImage option"

definition init_state :: app_state where
  "init_state = \<lparr>images = [], uploading = False, uploadProgress = 0,
     page_images = [], selectedImage = None\<rparr>"

section \<open>The page's callbacks\<close>

text \<open>
  A callback of a function component reads the props and state of the render that
  created it. Each definition below takes the values its closure reads as arguments, and
  the state it writes as the state passed through.

  \<^verbatim>\<open>handleImagesChange\<close> (page component, lines 21-26): stores the list and, when the
  list is not empty and \<^verbatim>\<open>selectedImage\<close> of its render is \<^verbatim>\<open>null\<close>, selects the first
  element. \<open>sel\<close> is that \<^verbatim>\<open>selectedImage\<close>.
\<close>

definition handleImagesChange ::
  "UploadedImage option \<Rightarrow> UploadedImage list \<Rightarrow> app_state \<Rightarrow> app_state" where
  "handleImagesChange sel newImages s =
     (let s1 = s\<lparr>page_images := newImages\<rparr>
      in if length newImages > 0 \<and> sel = None
         then (case newImages of [] \<Rightarrow> s1 | x # _ \<Rightarrow> s1\<lparr>selectedImage := Some x\<rparr>)
         else s1)"

text \<open>
  \<^verbatim>\<open>handleImageSelect\<close>: \<^verbatim>\<open>setSelectedImage(image)\<close>. The argument is an image or
  \<^verbatim>\<open>null\<close> (\<^verbatim>\<open>removeImage\<close> passes \<^verbatim>\<open>updatedImages[0] || null\<close>).
\<close>

definition handleImageSelect :: "UploadedImage option \<Rightarrow> app_state \<Rightarrow> app_state" where
  "handleImageSelect img s = s\<lparr>selectedImage := img\<rparr>"

section \<open>ImageUpload: submitting files\<close>

definition startsWith :: "string \<Rightarrow> string \<Rightarrow> bool" where
  "startsWith s p = (take (length p) s = p)"

text \<open>
  \<^verbatim>\<open>xs.slice(0, e)\<close>: a negative \<^verbatim>\<open>e\<close> counts from the end of the array.
\<close>

definition slice0 :: "'a list \<Rightarrow> int \<Rightarrow> 'a list" where
  "slice0 xs e =
     (let len = int (length xs);
          final = (if e < 0 then max (len + e) 0 else min e len)
      in take (nat final) xs)"

text \<open>
  Lines 59-61 of \<^verbatim>\<open>processFiles\<close>; \<open>imgs\<close> is the \<^verbatim>\<open>images\<close> its closure holds.
\<close>

definition filesToProcess :: "int \<Rightarrow> UploadedImage list \<Rightarrow> File list \<Rightarrow> File list" where
  "filesToProcess maxImages imgs files =
     (let imageFiles = filter (\<lambda>file. startsWith (file_type file) ''image/'') files;
          remainingSlots = maxImages - int (length imgs)
      in slice0 imageFiles remainingSlots)"

text \<open>
  One firing of \<^verbatim>\<open>img.onload\<close>: the decode of the file at \<^verbatim>\<open>ev_index\<close> has completed
  at time \<^verbatim>\<open>ev_now\<close> (the value of \<^verbatim>\<open>Date.now()\<close>), with the data URL and the pixel
  size it found. The order of a list of such events is the order in which the decodes
  complete. A decode that fails fires no event: the source installs no error handler.
\<close>

record load_event =
  ev_index :: nat
  ev_now :: nat
  ev_url :: string
  ev_width :: nat
  ev_height :: nat

definition uploadedImage :: "File list \<Rightarrow> load_event \<Rightarrow> UploadedImage" where
  "uploadedImage fs ev =
     (let file = fs ! ev_index ev
      in \<lparr>img_id = (ev_now ev, ev_index ev), img_file = file, img_url = ev_url ev,
          img_name = file_name file, img_size = file_size file,
          img_width = Some (ev_width ev), img_height = Some (ev_height ev)\<rparr>)"

text \<open>
  The body of \<^verbatim>\<open>img.onload\<close> (lines 74-95). \<open>imgs\<close> and \<open>onImagesChange\<close> are the
  \<^verbatim>\<open>images\<close> and the \<^verbatim>\<open>onImagesChange\<close> prop the closure of \<^verbatim>\<open>processFiles\<close> holds,
  \<open>fs\<close> is \<^verbatim>\<open>filesToProcess\<close>, and the first component of the pair is the local array
  \<^verbatim>\<open>newImages\<close>.
\<close>

definition img_onload ::
  "UploadedImage list \<Rightarrow> (UploadedImage list \<Rightarrow> app_state \<Rightarrow> app_state) \<Rightarrow> File list \<Rightarrow>
   load_event \<Rightarrow> UploadedImage list \<times> app_state \<Rightarrow> UploadedImage list \<times> app_state" where
  "img_onload imgs onImagesChange fs ev acc =
     (let newImages = fst acc @ [uploadedImage fs ev];
          s1 = (snd acc)\<lparr>uploadProgress := real (length newImages) / real (length fs) * 100\<rparr>
      in if length newImages = length fs
         then (let updatedImages = imgs @ newImages;
                   s2 = s1\<lparr>images := updatedImages\<rparr>;
                   s3 = onImagesChange updatedImages s2
               in (newImages, s3\<lparr>uploading := False, uploadProgress := 0\<rparr>))
         else (newImages, s1))"

text \<open>
  \<^verbatim>\<open>processFiles\<close> (lines 58-100), run together with the completions \<open>evs\<close> of the
  decodes it starts, in the order they happen. No other command runs in between.
\<close>

definition processFiles ::
  "int \<Rightarrow> UploadedImage list \<Rightarrow> (UploadedImage list \<Rightarrow> app_state \<Rightarrow> app_state) \<Rightarrow>
   File list \<Rightarrow> load_event list \<Rightarrow> app_state \<Rightarrow> app_state" where
  "processFiles maxImages imgs onImagesChange files evs s =
     (let fs = filesToProcess maxImages imgs files
      in if length fs = 0 then s
         else snd (foldl (\<lambda>acc ev. img_onload imgs onImagesChange fs ev acc)
                     ([], s\<lparr>uploading := True, uploadProgress := 0\<rparr>) evs))"

text \<open>
  \<^verbatim>\<open>handleDrop\<close> and \<^verbatim>\<open>handleFileSelect\<close> (lines 44-56), the only callers of
  \<^verbatim>\<open>processFiles\<close>. Both are wrapped in \<^verbatim>\<open>useCallback(..., [])\<close>: with the empty
  dependency list React keeps the function of the first render for the lifetime of the
  component, and that function calls the \<^verbatim>\<open>processFiles\<close> of the first render. In the
  first render \<^verbatim>\<open>images\<close> is the initial state \<^verbatim>\<open>[]\<close>, and \<^verbatim>\<open>onImagesChange\<close> is the
  \<^verbatim>\<open>handleImagesChange\<close> of the first render of the page, where \<^verbatim>\<open>selectedImage\<close> is
  \<^verbatim>\<open>null\<close>.
\<close>

definition handleDrop :: "int \<Rightarrow> File list \<Rightarrow> load_event list \<Rightarrow> app_state \<Rightarrow> app_state" where
  "handleDrop maxImages files evs s =
     processFiles maxImages [] (handleImagesChange None) files evs s"

definition handleFileSelect ::
  "int \<Rightarrow> File list \<Rightarrow> load_event list \<Rightarrow> app_state \<Rightarrow> app_state" where
  "handleFileSelect maxImages files evs s =
     processFiles maxImages [] (handleImagesChange None) files evs s"

text \<open>
  Every started decode completes at most once, and only started decodes complete.
\<close>

definition valid_schedule :: "nat \<Rightarrow> load_event list \<Rightarrow> bool" where
  "valid_schedule n evs =
     (distinct (map ev_index evs) \<and> list_all (\<lambda>ev. ev_index ev < n) evs)"

section \<open>ImageUpload: removing and clearing\<close>

text \<open>
  \<^verbatim>\<open>removeImage\<close> (lines 102-110). Its dependency list names everything it reads, and
  the button calls it through a function made in the current render, so it reads the
  current \<^verbatim>\<open>images\<close> and \<^verbatim>\<open>selectedImage\<close> and calls the current callbacks.
\<close>

definition removeImage :: "nat \<times> nat \<Rightarrow> app_state \<Rightarrow> app_state" where
  "removeImage i s =
     (let updatedImages = filter (\<lambda>img. img_id img \<noteq> i) (images s);
          s1 = s\<lparr>images := updatedImages\<rparr>;
          s2 = handleImagesChange (selectedImage s) updatedImages s1
      in if map_option img_id (selectedImage s) = Some i
         then handleImageSelect (case updatedImages of [] \<Rightarrow> None | x # _ \<Rightarrow> Some x) s2
         else s2)"

text \<open>
  The click handler of the button "Clear Batch" (lines 174-177), a function made in the
  current render.
\<close>

definition clearBatch :: "app_state \<Rightarrow> app_state" where
  "clearBatch s = handleImagesChange (selectedImage s) [] (s\<lparr>images := []\<rparr>)"

text \<open>
  The states a session can be in: it starts empty, and each step is one of the commands
  of the user interface. A click in the grid selects an image of the batch.
\<close>

inductive reachable :: "int \<Rightarrow> app_state \<Rightarrow> bool" for maxImages :: int where
  r_init: "reachable maxImages init_state"
| r_drop: "reachable maxImages s \<Longrightarrow>
     valid_schedule (length (filesToProcess maxImages [] files)) evs \<Longrightarrow>
     reachable maxImages (handleDrop maxImages files evs s)"
| r_file_select: "reachable maxImages s \<Longrightarrow>
     valid_schedule (length (filesToProcess maxImages [] files)) evs \<Longrightarrow>
     reachable maxImages (handleFileSelect maxImages files evs s)"
| r_remove: "reachable maxImages s \<Longrightarrow> reachable maxImages (removeImage i s)"
| r_select: "reachable maxImages s \<Longrightarrow> img \<in> set (images s) \<Longrightarrow>
     reachable maxImages (handleImageSelect (Some img) s)"
| r_clear: "reachable maxImages s \<Longrightarrow> reachable maxImages (clearBatch s)"

text \<open>The selection refers to a descriptor of the batch, or is empty.\<close>

definition selection_ok :: "app_state \<Rightarrow> bool" where
  "selection_ok s =
     (case selectedImage s of None \<Rightarrow> True
      | Some x \<Rightarrow> img_id x \<in> set (map img_id (images s)))"

section \<open>Numbers\<close>

text \<open>
  A number of the program is a double: a real number, an infinity or \<^verbatim>\<open>NaN\<close>. The sum,
  quotient and product of two finite doubles is the exact result rounded to a double,
  which is the nearest one, or an infinity when the result is out of range. That rounding
  is the argument \<open>rnd\<close> of the operations below; nothing is assumed about it, so what is
  proved holds for the rounding of the machine. Only the operations the component applies
  are modelled: addition, division by a count (an array length or a counter, so a
  non-negative integer), multiplication by 100 and \<^verbatim>\<open>Math.round\<close>.
\<close>

datatype jsnum = Num real | PosInf | NegInf | NaN

fun js_add :: "(real \<Rightarrow> jsnum) \<Rightarrow> jsnum \<Rightarrow> jsnum \<Rightarrow> jsnum" where
  "js_add rnd NaN y = NaN"
| "js_add rnd x NaN = NaN"
| "js_add rnd (Num a) (Num b) = rnd (a + b)"
| "js_add rnd PosInf NegInf = NaN"
| "js_add rnd NegInf PosInf = NaN"
| "js_add rnd PosInf y = PosInf"
| "js_add rnd NegInf y = NegInf"
| "js_add rnd (Num a) y = y"

text \<open>\<^verbatim>\<open>x / n\<close> for a count \<^verbatim>\<open>n\<close>: \<^verbatim>\<open>0 / 0\<close> is \<^verbatim>\<open>NaN\<close>.\<close>

definition js_div_count :: "(real \<Rightarrow> jsnum) \<Rightarrow> jsnum \<Rightarrow> nat \<Rightarrow> jsnum" where
  "js_div_count rnd x n =
     (case x of
        Num a \<Rightarrow>
          (if n = 0 then (if a = 0 then NaN else if 0 < a then PosInf else NegInf)
           else rnd (a / real n))
      | _ \<Rightarrow> x)"

fun js_times100 :: "(real \<Rightarrow> jsnum) \<Rightarrow> jsnum \<Rightarrow> jsnum" where
  "js_times100 rnd (Num a) = rnd (a * 100)"
| "js_times100 rnd x = x"

text \<open>
  \<^verbatim>\<open>Math.round\<close>: the nearest integer, a tie going up. The result is a double, so no
  rounding applies.
\<close>

fun Math_round :: "jsnum \<Rightarrow> jsnum" where
  "Math_round (Num a) = Num (of_int \<lfloor>a + 1 / 2\<rfloor>)"
| "Math_round x = x"

section \<open>Strings\<close>

text \<open>
  Strings are lists of 8-bit characters. This covers ASCII text, where \<^verbatim>\<open>toUpperCase\<close>
  maps the 26 small letters and nothing else; the upper-casing of other characters is not
  modelled, and what is proved of it is stated for ASCII strings.
\<close>

definition upper_char :: "char \<Rightarrow> char" where
  "upper_char c =
     (case map_of (zip ''abcdefghijklmnopqrstuvwxyz'' ''ABCDEFGHIJKLMNOPQRSTUVWXYZ'') c of
        None \<Rightarrow> c
      | Some u \<Rightarrow> u)"

definition toUpperCase :: "string \<Rightarrow> string" where
  "toUpperCase s = map upper_char s"

text \<open>\<^verbatim>\<open>s.split(d)\<close> for a one-character separator: never an empty array.\<close>

fun split :: "char \<Rightarrow> string \<Rightarrow> string list" where
  "split d [] = [[]]"
| "split d (c # cs) =
     (if c = d then [] # split d cs
      else (case split d cs of [] \<Rightarrow> [[c]] | x # xs \<Rightarrow> (c # x) # xs))"

text \<open>The decimal numeral a template literal prints for a non-negative integer.\<close>

fun string_of_nat :: "nat \<Rightarrow> string" where
  "string_of_nat n =
     (if n < 10 then [''0123456789'' ! n]
      else string_of_nat (n div 10) @ [''0123456789'' ! (n mod 10)])"

declare string_of_nat.simps [simp del]

section \<open>Objects used as dictionaries\<close>

text \<open>
  An object literal \<^verbatim>\<open>{}\<close> that the reducers fill: its own properties as an association
  list in creation order. \<^verbatim>\<open>acc[k] = v\<close> is \<^const>\<open>AList.update\<close>, which replaces the
  value of an existing key in place and appends a new key at the end. A read \<^verbatim>\<open>acc[k]\<close>
  of a key that is not an own property finds the properties \<^verbatim>\<open>Object.prototype\<close>
  gives every object; their values are functions, or the prototype itself, and so truthy.
\<close>

definition Object_prototype_keys :: "string list" where
  "Object_prototype_keys =
     [''constructor'', ''__defineGetter__'', ''__defineSetter__'', ''hasOwnProperty'',
      ''__lookupGetter__'', ''__lookupSetter__'', ''isPrototypeOf'', ''propertyIsEnumerable'',
      ''toString'', ''valueOf'', ''__proto__'', ''toLocaleString'']"

definition is_digit :: "char \<Rightarrow> bool" where
  "is_digit c = ((48::nat) \<le> of_char c \<and> of_char c \<le> (57::nat))"

definition int_of_digits :: "string \<Rightarrow> int" where
  "int_of_digits s = foldl (\<lambda>n c. 10 * n + (of_char c - 48)) 0 s"

text \<open>
  An array index: the canonical decimal numeral of an integer below \<open>2\<^sup>3\<^sup>2 - 1\<close>.
\<close>

definition is_array_index :: "string \<Rightarrow> bool" where
  "is_array_index s =
     (case s of [] \<Rightarrow> False
      | c # cs \<Rightarrow> list_all is_digit s \<and> (if c = CHR ''0'' then cs = [] else True) \<and>
          int_of_digits s < 2 ^ 32 - 1)"

text \<open>
  \<^verbatim>\<open>Object.entries\<close>: the array-index keys in ascending numeric order, then the other
  keys in creation order.
\<close>

definition Object_entries :: "(string \<times> 'v) list \<Rightarrow> (string \<times> 'v) list" where
  "Object_entries obj =
     sort_key (\<lambda>kv. int_of_digits (fst kv)) (filter (\<lambda>kv. is_array_index (fst kv)) obj) @
     filter (\<lambda>kv. \<not> is_array_index (fst kv)) obj"

section \<open>AnalysisPanel: the analysis result\<close>

record Detection =
  det_class_name :: string
  det_conf :: real
  det_bbox :: "real list"

record AnalysisImage =
  ai_image_name :: string
  ai_format :: string
  ai_size_mb :: real
  ai_input_image_url :: string
  ai_annotated_image_url :: string
  ai_domain :: string
  ai_labels :: "string list"
  ai_detections :: "Detection list"

record AnalysisSummary =
  total_images :: nat
  total_size_mb :: real
  average_size_mb :: real
  unique_labels :: "string list"

record AnalysisResult =
  ar_summary :: AnalysisSummary
  ar_images :: "AnalysisImage list"

section \<open>AnalysisPanel: the derived view\<close>

record Summary =
  description :: string
  labels :: "string list"
  confidence :: jsnum

record Dashboard =
  detectionCount :: nat
  averageConfidence :: jsnum
  processingTime :: string

record AnalysisData =
  summary :: Summary
  dashboard :: Dashboard

record DetectionEntry =
  entry_name :: string
  entry_count :: nat
  entry_confidence :: jsnum

record Counter =
  cnt_count :: nat
  cnt_totalConf :: jsnum

text \<open>
  \<^verbatim>\<open>formatAnalysis\<close> (lines 65-76). The result pairs are \<^verbatim>\<open>{name, value}\<close>. The keys
  are upper-cased, so none of them is a property of \<^verbatim>\<open>Object.prototype\<close> and the read
  \<^verbatim>\<open>acc[ext]\<close> finds own properties only.
\<close>

definition file_ext :: "string \<Rightarrow> string" where
  "file_ext nm =
     (let ext = toUpperCase (last (split (CHR ''.'') nm))
      in if ext = [] then ''UNKNOWN'' else ext)"

definition formatAnalysis :: "UploadedImage list \<Rightarrow> (string \<times> nat) list" where
  "formatAnalysis imgs =
     (let formats = foldl (\<lambda>acc img.
            let ext = file_ext (img_name img)
            in AList.update ext ((case map_of acc ext of None \<Rightarrow> 0 | Some n \<Rightarrow> n) + 1) acc)
          [] imgs
      in Object_entries formats)"

text \<open>\<^verbatim>\<open>currentImageAnalysis\<close> (lines 82-84).\<close>

definition currentImageAnalysis ::
  "UploadedImage option \<Rightarrow> AnalysisResult option \<Rightarrow> AnalysisImage option" where
  "currentImageAnalysis sel analysisResult =
     (case analysisResult of None \<Rightarrow> None
      | Some r \<Rightarrow>
          find (\<lambda>img. case sel of None \<Rightarrow> False | Some s \<Rightarrow> ai_image_name img = img_name s)
            (ar_images r))"

text \<open>
  The inner reducer \<^verbatim>\<open>detections.reduce((avg, det) => avg + det.conf, 0)\<close>; the
  confidences are finite numbers.
\<close>

definition conf_sum :: "(real \<Rightarrow> jsnum) \<Rightarrow> Detection list \<Rightarrow> jsnum" where
  "conf_sum rnd dets = foldl (\<lambda>avg det. js_add rnd avg (Num (det_conf det))) (Num 0) dets"

text \<open>\<^verbatim>\<open>analysisData\<close> (lines 86-116).\<close>

definition analysisData ::
  "(real \<Rightarrow> jsnum) \<Rightarrow> UploadedImage option \<Rightarrow> AnalysisResult option \<Rightarrow> AnalysisData" where
  "analysisData rnd sel analysisResult =
     (case analysisResult of
        Some r \<Rightarrow>
          \<lparr>summary =
             \<lparr>description =
                (case (sel, currentImageAnalysis sel analysisResult) of
                   (Some s, Some cur) \<Rightarrow>
                     ''Analysis of '' @ img_name s @ '' detected '' @
                     string_of_nat (length (ai_detections cur)) @ '' objects in '' @
                     ai_domain cur @ '' domain.''
                 | _ \<Rightarrow>
                     ''Analysis of '' @ string_of_nat (total_images (ar_summary r)) @
                     '' images with '' @
                     string_of_nat (length (unique_labels (ar_summary r))) @
                     '' unique labels detected.''),
              labels = unique_labels (ar_summary r),
              confidence =
                (case currentImageAnalysis sel analysisResult of
                   Some cur \<Rightarrow>
                     Math_round (js_times100 rnd
                       (js_div_count rnd (conf_sum rnd (ai_detections cur))
                          (length (ai_detections cur))))
                 | None \<Rightarrow> Num 0)\<rparr>,
           dashboard =
             \<lparr>detectionCount =
                foldl (\<lambda>total img. total + length (ai_detections img)) 0 (ar_images r),
              averageConfidence =
                Math_round (js_times100 rnd
                  (js_div_count rnd
                     (foldl (\<lambda>total img.
                          js_add rnd total
                            (js_div_count rnd (conf_sum rnd (ai_detections img))
                               (length (ai_detections img))))
                        (Num 0) (ar_images r))
                     (length (ar_images r)))),
              processingTime = ''2.4s''\<rparr>\<rparr>
      | None \<Rightarrow>
          \<lparr>summary =
             \<lparr>description = ''Upload and analyze images to see results here.'',
              labels = [], confidence = Num 0\<rparr>,
           dashboard =
             \<lparr>detectionCount = 0, averageConfidence = Num 0, processingTime = ''0s''\<rparr>\<rparr>)"

text \<open>
  The body of \<^verbatim>\<open>img.detections.forEach\<close> (lines 122-129). \<^verbatim>\<open>!acc[className]\<close> holds
  when the name is neither an own property (a counter object) nor inherited. For an
  inherited name no own property is created and the two updates land on the inherited
  object, so that \<^verbatim>\<open>acc\<close> keeps its own properties.
\<close>

definition count_detection ::
  "(real \<Rightarrow> jsnum) \<Rightarrow> (string \<times> Counter) list \<Rightarrow> Detection \<Rightarrow> (string \<times> Counter) list" where
  "count_detection rnd acc det =
     (let className = det_class_name det;
          acc1 = (if map_of acc className = None \<and> className \<notin> set Object_prototype_keys
                  then AList.update className \<lparr>cnt_count = 0, cnt_totalConf = Num 0\<rparr> acc
                  else acc)
      in case map_of acc1 className of
           None \<Rightarrow> acc1
         | Some d \<Rightarrow>
             AList.update className
               \<lparr>cnt_count = cnt_count d + 1,
                cnt_totalConf = js_add rnd (cnt_totalConf d) (Num (det_conf det))\<rparr>
               acc1)"

text \<open>\<^verbatim>\<open>name.charAt(0).toUpperCase() + name.slice(1)\<close>\<close>

definition capitalize :: "string \<Rightarrow> string" where
  "capitalize nm = toUpperCase (take 1 nm) @ drop 1 nm"

definition detection_entry :: "(real \<Rightarrow> jsnum) \<Rightarrow> string \<times> Counter \<Rightarrow> DetectionEntry" where
  "detection_entry rnd kv =
     \<lparr>entry_name = capitalize (fst kv),
      entry_count = cnt_count (snd kv),
      entry_confidence =
        Math_round (js_times100 rnd
          (js_div_count rnd (cnt_totalConf (snd kv)) (cnt_count (snd kv))))\<rparr>"

text \<open>
  \<^verbatim>\<open>detectionData\<close> (lines 119-137). \<^verbatim>\<open>sort((a, b) => b.count - a.count)\<close> is a stable
  sort by falling count, as \<^const>\<open>sort_key\<close> on the negated count is.
\<close>

definition detectionData ::
  "(real \<Rightarrow> jsnum) \<Rightarrow> AnalysisResult option \<Rightarrow> DetectionEntry list" where
  "detectionData rnd analysisResult =
     (case analysisResult of
        None \<Rightarrow> []
      | Some r \<Rightarrow>
          sort_key (\<lambda>e. - int (entry_count e))
            (map (detection_entry rnd)
               (Object_entries
                  (foldl (\<lambda>acc img. foldl (count_detection rnd) acc (ai_detections img))
                     [] (ar_images r)))))"

text \<open>What one render of \<^verbatim>\<open>AnalysisPanel\<close> derives from its three props.\<close>

record ViewModel =
  vm_formatData :: "(string \<times> nat) list"
  vm_analysisData :: AnalysisData
  vm_detectionData :: "DetectionEntry list"

definition AnalysisPanel ::
  "(real \<Rightarrow> jsnum) \<Rightarrow> UploadedImage list \<Rightarrow> UploadedImage option \<Rightarrow>
   AnalysisResult option \<Rightarrow> ViewModel" where
  "AnalysisPanel rnd imgs sel analysisResult =
     \<lparr>vm_formatData = formatAnalysis imgs,
      vm_analysisData = analysisData rnd sel analysisResult,
      vm_detectionData = detectionData rnd analysisResult\<rparr>"

text \<open>The mean confidence of the detections of one analysed image, as a real number.\<close>

definition image_mean :: "AnalysisImage \<Rightarrow> real" where
  "image_mean img =
     sum_list (map det_conf (ai_detections img)) / real (length (ai_detections img))"

section \<open>The detection distribution, stated on the list of all detections\<close>

text \<open>
  These definitions do not come from the source: they word the distribution as a
  grouping of the detections, to compare \<^const>\<open>detectionData\<close> with.
  \<^item> \<open>first_seen\<close>: the distinct elements of a list, in the order of their first occurrence;
  \<^item> \<open>label_counter\<close>: how many detections carry a class name, and the sum of their
    confidences, added in the order of the detections in the arithmetic of the program;
  \<^item> \<open>groups\<close>: one counter for each class name, in first-seen order;
  \<^item> \<open>group_entry\<close>: the chart entry of a class name: the name with its first character
    upper-cased, the number of its detections, and \<^verbatim>\<open>Math.round\<close> of that sum divided by
    that number and multiplied by 100, the mean as a rounded percentage;
  \<^item> \<open>ascii\<close>: a string of characters below 128, for which a character of the model is a
    code unit of the program's string and the upper-casing of the model is that of the
    program;
  \<^item> \<open>ordinary_name\<close>: an ASCII class name that is neither an array index nor the name of
    a property every object inherits.
\<close>

definition first_seen :: "'a list \<Rightarrow> 'a list" where
  "first_seen xs = rev (remdups (rev xs))"

definition label_counter :: "(real \<Rightarrow> jsnum) \<Rightarrow> Detection list \<Rightarrow> string \<Rightarrow> Counter" where
  "label_counter rnd dets c =
     \<lparr>cnt_count = length (filter (\<lambda>d. det_class_name d = c) dets),
      cnt_totalConf = conf_sum rnd (filter (\<lambda>d. det_class_name d = c) dets)\<rparr>"

definition groups :: "(real \<Rightarrow> jsnum) \<Rightarrow> Detection list \<Rightarrow> (string \<times> Counter) list" where
  "groups rnd dets =
     map (\<lambda>c. (c, label_counter rnd dets c)) (first_seen (map det_class_name dets))"

definition group_entry :: "(real \<Rightarrow> jsnum) \<Rightarrow> Detection list \<Rightarrow> string \<Rightarrow> DetectionEntry" where
  "group_entry rnd dets c =
     \<lparr>entry_name = capitalize c,
      entry_count = length (filter (\<lambda>d. det_class_name d = c) dets),
      entry_confidence =
        Math_round (js_times100 rnd
          (js_div_count rnd (conf_sum rnd (filter (\<lambda>d. det_class_name d = c) dets))
             (length (filter (\<lambda>d. det_class_name d = c) dets))))\<rparr>"

definition ascii :: "string \<Rightarrow> bool" where
  "ascii s = list_all (\<lambda>c. of_char c < (128::nat)) s"

definition ordinary_name :: "string \<Rightarrow> bool" where
  "ordinary_name c = (ascii c \<and> \<not> is_array_index c \<and> c \<notin> set Object_prototype_keys)"

section \<open>Sample inputs\<close>

definition file_a :: File where
  "file_a = \<lparr>file_name = ''a.png'', file_type = ''image/png'', file_size = 100\<rparr>"

definition file_b :: File where
  "file_b = \<lparr>file_name = ''b.png'', file_type = ''image/png'', file_size = 200\<rparr>"

definition file_c :: File where
  "file_c = \<lparr>file_name = ''c.jpg'', file_type = ''image/jpeg'', file_size = 300\<rparr>"

definition file_t :: File where
  "file_t = \<lparr>file_name = ''notes.txt'', file_type = ''text/plain'', file_size = 10\<rparr>"

definition load :: "nat \<Rightarrow> nat \<Rightarrow> load_event" where
  "load i t = \<lparr>ev_index = i, ev_now = t, ev_url = ''data:'', ev_width = 4, ev_height = 3\<rparr>"

definition image_named :: "string \<Rightarrow> UploadedImage" where
  "image_named nm =
     \<lparr>img_id = (0, 0),
      img_file = \<lparr>file_name = nm, file_type = ''image/png'', file_size = 100\<rparr>,
      img_url = ''data:'', img_name = nm, img_size = 100,
      img_width = Some 4, img_height = Some 3\<rparr>"

definition detection :: "string \<Rightarrow> real \<Rightarrow> Detection" where
  "detection c x = \<lparr>det_class_name = c, det_conf = x, det_bbox = [0, 0, 1, 1]\<rparr>"

definition analysed :: "string \<Rightarrow> Detection list \<Rightarrow> AnalysisImage" where
  "analysed nm ds =
     \<lparr>ai_image_name = nm, ai_format = ''jpg'', ai_size_mb = 1,
      ai_input_image_url = ''in'', ai_annotated_image_url = ''out'',
      ai_domain = ''factory'', ai_labels = map det_class_name ds, ai_detections = ds\<rparr>"

definition result_of :: "AnalysisImage list \<Rightarrow> AnalysisResult" where
  "result_of xs =
     \<lparr>ar_summary = \<lparr>total_images = length xs, total_size_mb = 1, average_size_mb = 1,
                    unique_labels = remdups (concat (map ai_labels xs))\<rparr>,
      ar_images = xs\<rparr>"

section \<open>Submitting files: the fold over the completions\<close>

lemma foldl_onload_fst:
  "fst (foldl (\<lambda>acc ev. img_onload imgs oc fs ev acc) acc0 evs)
     = fst acc0 @ map (uploadedImage fs) evs"
  by (induction evs arbitrary: acc0) (simp_all add: img_onload_def Let_def)

lemma foldl_onload_before:
  "length (fst acc0) + length evs < length fs \<Longrightarrow>
   images (snd (foldl (\<lambda>acc ev. img_onload imgs oc fs ev acc) acc0 evs)) = images (snd acc0) \<and>
   page_images (snd (foldl (\<lambda>acc ev. img_onload imgs oc fs ev acc) acc0 evs))
     = page_images (snd acc0) \<and>
   selectedImage (snd (foldl (\<lambda>acc ev. img_onload imgs oc fs ev acc) acc0 evs))
     = selectedImage (snd acc0)"
proof (induction evs arbitrary: acc0)
  case Nil
  then show ?case by simp
next
  case (Cons ev evs)
  let ?a = "img_onload imgs oc fs ev acc0"
  have l: "length (fst ?a) = Suc (length (fst acc0))"
    by (simp add: img_onload_def Let_def)
  have keep: "images (snd ?a) = images (snd acc0) \<and> page_images (snd ?a) = page_images (snd acc0)
      \<and> selectedImage (snd ?a) = selectedImage (snd acc0)"
    using Cons.prems by (simp add: img_onload_def Let_def)
  have "length (fst ?a) + length evs < length fs"
    using Cons.prems l by simp
  from Cons.IH [OF this] keep show ?case by simp
qed

lemma handleImagesChange_images [simp]:
  "images (handleImagesChange sel xs s) = images s"
  by (simp add: handleImagesChange_def Let_def split: list.splits)

lemma handleImagesChange_page [simp]:
  "page_images (handleImagesChange sel xs s) = xs"
  by (simp add: handleImagesChange_def Let_def split: list.splits)

lemma handleImagesChange_selected:
  "selectedImage (handleImagesChange sel xs s) =
     (if sel = None then (case xs of [] \<Rightarrow> selectedImage s | x # _ \<Rightarrow> Some x)
      else selectedImage s)"
  by (simp add: handleImagesChange_def Let_def split: list.splits)

lemma foldl_onload_complete:
  assumes "fs \<noteq> []" "length evs = length fs"
  shows "images (snd (foldl (\<lambda>acc ev. img_onload imgs (handleImagesChange sel) fs ev acc)
                  ([], s0) evs))
           = imgs @ map (uploadedImage fs) evs"
    and "page_images (snd (foldl (\<lambda>acc ev. img_onload imgs (handleImagesChange sel) fs ev acc)
                  ([], s0) evs))
           = imgs @ map (uploadedImage fs) evs"
    and "selectedImage (snd (foldl (\<lambda>acc ev. img_onload imgs (handleImagesChange sel) fs ev acc)
                  ([], s0) evs))
           = (if sel = None
              then (case imgs @ map (uploadedImage fs) evs of
                      [] \<Rightarrow> selectedImage s0 | x # _ \<Rightarrow> Some x)
              else selectedImage s0)"
proof -
  let ?step = "\<lambda>acc ev. img_onload imgs (handleImagesChange sel) fs ev acc"
  from assms have ne: "evs \<noteq> []" by auto
  then obtain es e where evs: "evs = es @ [e]"
    by (metis append_butlast_last_id)
  let ?a = "foldl ?step ([], s0) es"
  have f: "fst ?a = map (uploadedImage fs) es"
    using foldl_onload_fst [of imgs "handleImagesChange sel" fs "([], s0)" es] by simp
  have "length (fst ([]::UploadedImage list, s0)) + length es < length fs"
    using assms evs by simp
  from foldl_onload_before [OF this, of imgs "handleImagesChange sel"]
  have k: "selectedImage (snd ?a) = selectedImage s0" by simp
  have len: "length (fst ?a @ [uploadedImage fs e]) = length fs"
    using f assms evs by simp
  show "images (snd (foldl ?step ([], s0) evs)) = imgs @ map (uploadedImage fs) evs"
    using len f by (simp add: evs img_onload_def Let_def)
  show "page_images (snd (foldl ?step ([], s0) evs)) = imgs @ map (uploadedImage fs) evs"
    using len f by (simp add: evs img_onload_def Let_def)
  show "selectedImage (snd (foldl ?step ([], s0) evs))
           = (if sel = None
              then (case imgs @ map (uploadedImage fs) evs of
                      [] \<Rightarrow> selectedImage s0 | x # _ \<Rightarrow> Some x)
              else selectedImage s0)"
    using len f k
    by (simp add: evs img_onload_def Let_def handleImagesChange_selected split: list.splits)
qed

lemma valid_schedule_length:
  assumes "valid_schedule n evs"
  shows "length evs \<le> n"
proof -
  have "set (map ev_index evs) \<subseteq> {..<n}"
    using assms by (auto simp: valid_schedule_def list_all_iff)
  then have "card (set (map ev_index evs)) \<le> card {..<n}"
    by (intro card_mono) auto
  moreover have "card (set (map ev_index evs)) = length evs"
    using assms distinct_card [of "map ev_index evs"] by (simp add: valid_schedule_def)
  ultimately show ?thesis by simp
qed

lemma valid_schedule_complete:
  assumes "valid_schedule n evs" "length evs = n"
  shows "mset (map ev_index evs) = mset [0..<n]"
proof -
  have sub: "set (map ev_index evs) \<subseteq> {..<n}"
    using assms by (auto simp: valid_schedule_def list_all_iff)
  have "card (set (map ev_index evs)) = n"
    using assms distinct_card [of "map ev_index evs"] by (simp add: valid_schedule_def)
  with sub have "set (map ev_index evs) = {..<n}"
    by (simp add: card_subset_eq)
  then have "set (map ev_index evs) = set [0..<n]" by auto
  moreover have "distinct (map ev_index evs)" using assms by (simp add: valid_schedule_def)
  ultimately show ?thesis
    by (metis distinct_upt set_eq_iff_mset_eq_distinct)
qed

lemma handleImageSelect_simps [simp]:
  "images (handleImageSelect x s) = images s"
  "page_images (handleImageSelect x s) = page_images s"
  "selectedImage (handleImageSelect x s) = x"
  by (simp_all add: handleImageSelect_def)

lemma img_file_uploadedImage [simp]:
  "img_file (uploadedImage fs ev) = fs ! ev_index ev"
  by (simp add: uploadedImage_def Let_def)

text \<open>
  A run of \<^const>\<open>processFiles\<close> either leaves batch and selection as they are (no file
  accepted, or a decode still missing), or commits once, at the last completion.
\<close>

lemma processFiles_cases:
  assumes "valid_schedule (length (filesToProcess m imgs files)) evs"
  shows "(images (processFiles m imgs (handleImagesChange sel) files evs s) = images s \<and>
          page_images (processFiles m imgs (handleImagesChange sel) files evs s) = page_images s \<and>
          selectedImage (processFiles m imgs (handleImagesChange sel) files evs s)
            = selectedImage s) \<or>
         (filesToProcess m imgs files \<noteq> [] \<and>
          length evs = length (filesToProcess m imgs files) \<and>
          images (processFiles m imgs (handleImagesChange sel) files evs s) =
            imgs @ map (uploadedImage (filesToProcess m imgs files)) evs \<and>
          page_images (processFiles m imgs (handleImagesChange sel) files evs s) =
            imgs @ map (uploadedImage (filesToProcess m imgs files)) evs \<and>
          selectedImage (processFiles m imgs (handleImagesChange sel) files evs s) =
            (if sel = None
             then (case imgs @ map (uploadedImage (filesToProcess m imgs files)) evs of
                     [] \<Rightarrow> selectedImage s | x # _ \<Rightarrow> Some x)
             else selectedImage s))"
proof -
  let ?fs = "filesToProcess m imgs files"
  let ?s0 = "s\<lparr>uploading := True, uploadProgress := 0\<rparr>"
  consider "?fs = []" | "?fs \<noteq> []" "length evs < length ?fs"
    | "?fs \<noteq> []" "length evs = length ?fs"
    using valid_schedule_length [OF assms] by linarith
  then show ?thesis
  proof cases
    case 1
    then show ?thesis by (simp add: processFiles_def)
  next
    case 2
    then have "length (fst ([]::UploadedImage list, ?s0)) + length evs < length ?fs" by simp
    from foldl_onload_before [OF this, of imgs "handleImagesChange sel"] 2(1)
    show ?thesis by (simp add: processFiles_def)
  next
    case 3
    from foldl_onload_complete [OF 3, of imgs sel ?s0] 3
    show ?thesis by (simp add: processFiles_def split: list.splits)
  qed
qed

lemma processFiles_complete_images:
  assumes "length evs = length (filesToProcess m imgs files)"
  shows "images (processFiles m imgs (handleImagesChange sel) files evs s) =
           (if filesToProcess m imgs files = [] then images s
            else imgs @ map (uploadedImage (filesToProcess m imgs files)) evs)"
proof (cases "filesToProcess m imgs files = []")
  case True
  with assms show ?thesis by (simp add: processFiles_def)
next
  case False
  from foldl_onload_complete(1) [OF False assms] False
  show ?thesis by (simp add: processFiles_def)
qed

text \<open>
  What a drop does to the state: nothing, or the batch becomes the new images alone and
  the first of them is selected.
\<close>

lemma handleDrop_cases:
  assumes "valid_schedule (length (filesToProcess m [] files)) evs"
  shows "(images (handleDrop m files evs s) = images s \<and>
          selectedImage (handleDrop m files evs s) = selectedImage s) \<or>
         (filesToProcess m [] files \<noteq> [] \<and>
          length evs = length (filesToProcess m [] files) \<and>
          images (handleDrop m files evs s) = map (uploadedImage (filesToProcess m [] files)) evs \<and>
          selectedImage (handleDrop m files evs s) =
            (case map (uploadedImage (filesToProcess m [] files)) evs of
               [] \<Rightarrow> selectedImage s | x # _ \<Rightarrow> Some x))"
  using processFiles_cases [OF assms, of None s] by (auto simp: handleDrop_def)

lemma handleFileSelect_handleDrop: "handleFileSelect m files evs s = handleDrop m files evs s"
  by (simp add: handleFileSelect_def handleDrop_def)

lemma filesToProcess_first:
  "0 \<le> m \<Longrightarrow> int (length (filesToProcess m [] files)) \<le> m"
  by (simp add: filesToProcess_def slice0_def Let_def)

section \<open>Reachable states\<close>

lemma reachable_selected:
  "reachable m s \<Longrightarrow> selectedImage s = None \<Longrightarrow> images s = []"
proof (induction rule: reachable.induct)
  case r_init
  then show ?case by (simp add: init_state_def)
next
  case (r_drop s files evs)
  from handleDrop_cases [OF r_drop.hyps(2), of s] r_drop.IH r_drop.prems
  show ?case by (auto split: list.splits)
next
  case (r_file_select s files evs)
  from handleDrop_cases [OF r_file_select.hyps(2), of s] r_file_select.IH r_file_select.prems
  show ?case by (auto simp: handleFileSelect_handleDrop split: list.splits)
next
  case (r_remove s i)
  then show ?case
    by (auto simp: removeImage_def Let_def handleImagesChange_selected
        split: if_splits list.splits)
next
  case (r_select s img)
  then show ?case by simp
next
  case (r_clear s)
  then show ?case by (simp add: clearBatch_def)
qed

lemma reachable_bounded:
  "reachable m s \<Longrightarrow> 0 \<le> m \<Longrightarrow> int (length (images s)) \<le> m"
proof (induction rule: reachable.induct)
  case r_init
  then show ?case by (simp add: init_state_def)
next
  case (r_drop s files evs)
  from filesToProcess_first [OF r_drop.prems, of files]
  have "int (length (filesToProcess m [] files)) \<le> m" .
  with handleDrop_cases [OF r_drop.hyps(2), of s] r_drop.IH r_drop.prems
  show ?case by auto
next
  case (r_file_select s files evs)
  from filesToProcess_first [OF r_file_select.prems, of files]
  have "int (length (filesToProcess m [] files)) \<le> m" .
  with handleDrop_cases [OF r_file_select.hyps(2), of s] r_file_select.IH r_file_select.prems
  show ?case by (auto simp: handleFileSelect_handleDrop)
next
  case (r_remove s i)
  have "int (length (filter (\<lambda>img. img_id img \<noteq> i) (images s))) \<le> int (length (images s))"
    by simp
  also have "\<dots> \<le> m" using r_remove by simp
  finally show ?case
    by (simp add: removeImage_def Let_def)
next
  case (r_select s img)
  then show ?case by simp
next
  case (r_clear s)
  then show ?case by (simp add: clearBatch_def)
qed

lemma filter_distinct_length:
  "distinct (map f xs) \<Longrightarrow> i \<in> set (map f xs) \<Longrightarrow>
   length (filter (\<lambda>x. f x \<noteq> i) xs) + 1 = length xs"
proof (induction xs)
  case Nil
  then show ?case by simp
next
  case (Cons x xs)
  show ?case
  proof (cases "f x = i")
    case True
    with Cons.prems have "i \<notin> f ` set xs" by auto
    then have "\<forall>y\<in>set xs. f y \<noteq> i" by blast
    then have "filter (\<lambda>x. f x \<noteq> i) xs = xs" by simp
    with True show ?thesis by simp
  next
    case False
    with Cons show ?thesis by auto
  qed
qed

lemmas ex_defs = file_a_def file_b_def file_c_def file_t_def load_def init_state_def
  filesToProcess_def slice0_def startsWith_def valid_schedule_def

lemmas run_defs = handleDrop_def processFiles_def img_onload_def uploadedImage_def
  handleImagesChange_def handleImageSelect_def removeImage_def clearBatch_def
  selection_ok_def Let_def

section \<open>Order of the admitted images\<close>

text \<open>
  C1: the claim that the newly admitted images are appended in submission order
  whatever the completion order. It fails: \<^verbatim>\<open>newImages.push\<close> runs in \<^verbatim>\<open>img.onload\<close>, so the
  images are admitted in the order the decodes complete. Two files \<^verbatim>\<open>a.png\<close>, \<^verbatim>\<open>b.png\<close>
  whose decodes complete second-first are admitted as \<^verbatim>\<open>b.png\<close>, \<^verbatim>\<open>a.png\<close>.
\<close>

theorem processFiles_order_counterexample:
  "map file_name (filesToProcess 10 [] [file_a, file_b]) = [''a.png'', ''b.png''] \<and>
   valid_schedule 2 [load 1 5, load 0 7] \<and>
   map img_name (images (handleDrop 10 [file_a, file_b] [load 1 5, load 0 7] init_state))
     = [''b.png'', ''a.png'']"
  by (simp add: ex_defs run_defs)

text \<open>
  C1, as amended: when no candidate is accepted the batch stays as it is; otherwise, when
  every accepted candidate's decode has completed, the batch is the images that
  \<^verbatim>\<open>processFiles\<close> holds followed by the new images in the order their decodes
  completed. Each accepted file is admitted exactly once, and the new images are in
  submission order when the decodes complete in submission order.
\<close>

theorem processFiles_completion_order:
  assumes "fs = filesToProcess maxImages imgs files"
    and "valid_schedule (length fs) evs"
    and "length evs = length fs"
  shows "images (processFiles maxImages imgs (handleImagesChange sel) files evs s)
           = (if fs = [] then images s else imgs @ map (uploadedImage fs) evs) \<and>
         map img_file (map (uploadedImage fs) evs) = map (\<lambda>ev. fs ! ev_index ev) evs \<and>
         mset (map img_file (map (uploadedImage fs) evs)) = mset fs \<and>
         (map ev_index evs = [0..<length fs] \<longrightarrow> map img_file (map (uploadedImage fs) evs) = fs)"
proof -
  have a: "images (processFiles maxImages imgs (handleImagesChange sel) files evs s)
             = (if fs = [] then images s else imgs @ map (uploadedImage fs) evs)"
    using processFiles_complete_images [of evs maxImages imgs files sel s] assms(1,3) by simp
  have b: "map img_file (map (uploadedImage fs) evs) = map ((!) fs) (map ev_index evs)"
    by simp
  have b': "map img_file (map (uploadedImage fs) evs) = map (\<lambda>ev. fs ! ev_index ev) evs"
    by simp
  have "mset (map ((!) fs) (map ev_index evs)) = image_mset ((!) fs) (mset (map ev_index evs))"
    by (simp only: mset_map)
  also have "\<dots> = image_mset ((!) fs) (mset [0..<length fs])"
    using valid_schedule_complete [OF assms(2,3)] by simp
  also have "\<dots> = mset (map ((!) fs) [0..<length fs])" by simp
  also have "\<dots> = mset fs" by (simp add: map_nth)
  finally have c: "mset (map ((!) fs) (map ev_index evs)) = mset fs" .
  have d: "map ev_index evs = [0..<length fs] \<longrightarrow> map ((!) fs) (map ev_index evs) = fs"
    by (simp add: map_nth)
  from c d have "mset (map img_file (map (uploadedImage fs) evs)) = mset fs"
    and "map ev_index evs = [0..<length fs] \<longrightarrow> map img_file (map (uploadedImage fs) evs) = fs"
    unfolding b by blast+
  with a b' show ?thesis by blast
qed

theorem processFiles_completion_order_witness:
  "valid_schedule 2 [load 1 5, load 0 7] \<and>
   images (processFiles 10 [] (handleImagesChange None) [file_a, file_b] [load 1 5, load 0 7]
             init_state)
     = [] @ map (uploadedImage [file_a, file_b]) [load 1 5, load 0 7] \<and>
   mset (map img_file (map (uploadedImage [file_a, file_b]) [load 1 5, load 0 7]))
     = mset [file_a, file_b]"
proof -
  have fs: "[file_a, file_b] = filesToProcess 10 [] [file_a, file_b]"
    by (simp add: ex_defs)
  have v: "valid_schedule (length [file_a, file_b]) [load 1 5, load 0 7]"
    by (simp add: ex_defs)
  have v2: "valid_schedule 2 [load 1 5, load 0 7]"
    by (simp add: ex_defs)
  have l: "length [load 1 5, load 0 7] = length [file_a, file_b]" by simp
  from processFiles_completion_order [OF fs v l, of None init_state] v2 show ?thesis by simp
qed

section \<open>Capacity\<close>

text \<open>
  For the \<^verbatim>\<open>images\<close> that \<^verbatim>\<open>processFiles\<close> holds, the accepted candidates are the first
  \<^verbatim>\<open>maxImages - length\<close> image files, and once all their decodes have completed the batch
  is longer than those images by the minimum of the number of image files and the
  remaining slots.
\<close>

lemma processFiles_length:
  assumes "int (length imgs) \<le> maxImages"
    and "length evs = length (filesToProcess maxImages imgs files)"
    and "filesToProcess maxImages imgs files \<noteq> []"
  shows "filesToProcess maxImages imgs files =
           take (nat (maxImages - int (length imgs)))
             (filter (\<lambda>file. startsWith (file_type file) ''image/'') files) \<and>
         length (images (processFiles maxImages imgs (handleImagesChange sel) files evs s)) =
           length imgs +
           min (length (filter (\<lambda>file. startsWith (file_type file) ''image/'') files))
               (nat (maxImages - int (length imgs)))"
proof -
  let ?img = "filter (\<lambda>file. startsWith (file_type file) ''image/'') files"
  let ?r = "nat (maxImages - int (length imgs))"
  have fs: "filesToProcess maxImages imgs files = take ?r ?img"
    using assms(1) by (simp add: filesToProcess_def slice0_def Let_def min_def)
  then have len: "length (filesToProcess maxImages imgs files) = min (length ?img) ?r"
    by simp
  from processFiles_complete_images [OF assms(2), of sel s] assms(3)
  have "length (images (processFiles maxImages imgs (handleImagesChange sel) files evs s))
          = length imgs + length evs"
    by simp
  with assms(2,3) len fs show ?thesis by simp
qed

text \<open>
  A completed drop replaces the batch by the new images: the \<^verbatim>\<open>images\<close> of the first
  render, which the memoised handler reads, is empty.
\<close>

lemma handleDrop_replaces:
  assumes "length evs = length (filesToProcess m [] files)"
    and "filesToProcess m [] files \<noteq> []"
  shows "images (handleDrop m files evs s) = map (uploadedImage (filesToProcess m [] files)) evs"
  using processFiles_complete_images [OF assms(1), of None s] assms(2)
  by (simp add: handleDrop_def)

lemma handleDrop_bounded:
  assumes "0 \<le> m" "int (length (images s)) \<le> m"
    and "valid_schedule (length (filesToProcess m [] files)) evs"
  shows "int (length (images (handleDrop m files evs s))) \<le> m"
proof -
  from filesToProcess_first [OF assms(1), of files]
  have "int (length (filesToProcess m [] files)) \<le> m" .
  with handleDrop_cases [OF assms(3), of s] assms(2) show ?thesis by auto
qed

text \<open>
  C2: the claim that a submission makes the batch longer by the minimum of the number of
  image candidates and the remaining slots. The batch never exceeds \<^verbatim>\<open>maxImages\<close>, and
  \<^verbatim>\<open>processFiles\<close> appends to the \<^verbatim>\<open>images\<close> it holds; but the two handlers that call
  it are memoised with an empty dependency list and keep calling the \<^verbatim>\<open>processFiles\<close> of
  the first render, whose \<^verbatim>\<open>images\<close> is empty. After \<^verbatim>\<open>a.png\<close> has been uploaded, a
  drop of \<^verbatim>\<open>b.png\<close> leaves a batch of one image, \<^verbatim>\<open>b.png\<close>, where the claim gives two.
\<close>

theorem handleDrop_replaces_batch:
  "map img_name (images (handleDrop 10 [file_a] [load 0 5] init_state)) = [''a.png''] \<and>
   map img_name (images (handleDrop 10 [file_b] [load 0 7]
      (handleDrop 10 [file_a] [load 0 5] init_state))) = [''b.png'']"
  by (simp add: ex_defs run_defs)

section \<open>The selection invariant\<close>

lemma selection_ok_handleDrop:
  assumes "selection_ok s"
    and "valid_schedule (length (filesToProcess m [] files)) evs"
  shows "selection_ok (handleDrop m files evs s)"
proof -
  from handleDrop_cases [OF assms(2), of s] assms(1) show ?thesis
    by (cases "selectedImage s") (auto simp: selection_ok_def split: list.splits)
qed

lemma selection_ok_removeImage:
  assumes "selection_ok s"
  shows "selection_ok (removeImage i s)"
proof (cases "selectedImage s")
  case None
  then show ?thesis
    by (auto simp: selection_ok_def removeImage_def Let_def handleImagesChange_selected
        split: list.splits)
next
  case (Some x)
  show ?thesis
  proof (cases "img_id x = i")
    case True
    with Some show ?thesis
      by (auto simp: selection_ok_def removeImage_def Let_def split: list.splits)
  next
    case False
    with Some assms show ?thesis
      by (auto simp: selection_ok_def removeImage_def Let_def handleImagesChange_selected)
  qed
qed

lemma selection_ok_handleImageSelect:
  "img \<in> set (images s) \<Longrightarrow> selection_ok (handleImageSelect (Some img) s)"
  by (simp add: selection_ok_def)

lemma clearBatch_selection:
  "images (clearBatch s) = [] \<and> selectedImage (clearBatch s) = selectedImage s"
  by (simp add: clearBatch_def handleImagesChange_selected)

text \<open>
  C3: the claim that every command keeps the selection inside the batch, and that
  clearing resets the selection. A drop, a removal and a click in the grid keep it;
  "Clear Batch" empties the list and calls \<^verbatim>\<open>onImagesChange([])\<close>, which leaves
  \<^verbatim>\<open>selectedImage\<close> as it was. After one upload and a clear, the selection is still the
  image that is gone.
\<close>

theorem clearBatch_dangling_selection:
  "reachable 10 (clearBatch (handleDrop 10 [file_a] [load 0 5] init_state)) \<and>
   selection_ok (handleDrop 10 [file_a] [load 0 5] init_state) \<and>
   images (clearBatch (handleDrop 10 [file_a] [load 0 5] init_state)) = [] \<and>
   selectedImage (clearBatch (handleDrop 10 [file_a] [load 0 5] init_state))
     = Some (uploadedImage [file_a] (load 0 5)) \<and>
   \<not> selection_ok (clearBatch (handleDrop 10 [file_a] [load 0 5] init_state))"
proof -
  have "valid_schedule (length (filesToProcess 10 [] [file_a])) [load 0 5]"
    by (simp add: ex_defs)
  from r_clear [OF r_drop [OF r_init this]]
  have "reachable 10 (clearBatch (handleDrop 10 [file_a] [load 0 5] init_state))" .
  then show ?thesis by (simp add: ex_defs run_defs)
qed

section \<open>Selecting\<close>

text \<open>
  C4: the claim that selecting an unknown image fails and leaves the batch
  unchanged. \<^verbatim>\<open>handleImageSelect\<close> has no lookup and no error: on the empty batch it
  selects an image that is not in it.
\<close>

theorem handleImageSelect_unknown_counterexample:
  "img_id (uploadedImage [file_a] (load 0 5)) \<notin> set (map img_id (images init_state)) \<and>
   handleImageSelect (Some (uploadedImage [file_a] (load 0 5))) init_state \<noteq> init_state \<and>
   selectedImage (handleImageSelect (Some (uploadedImage [file_a] (load 0 5))) init_state)
     = Some (uploadedImage [file_a] (load 0 5))"
  by (simp add: ex_defs run_defs)

text \<open>
  C4, as amended: selecting never fails; it makes the given image the selection and
  leaves the list of images unchanged, and the selection refers to an image of the batch
  whenever the given image is one of the batch, as it is for a click in the grid.
\<close>

theorem handleImageSelect_sets_selection:
  "selectedImage (handleImageSelect x s) = x \<and>
   images (handleImageSelect x s) = images s \<and>
   page_images (handleImageSelect x s) = page_images s \<and>
   (\<forall>img. x = Some img \<longrightarrow> img \<in> set (images s) \<longrightarrow> selection_ok (handleImageSelect x s))"
  by (auto simp: selection_ok_def)

theorem handleImageSelect_sets_selection_witness:
  "uploadedImage [file_a] (load 0 5)
     \<in> set (images (handleDrop 10 [file_a] [load 0 5] init_state)) \<and>
   selection_ok (handleImageSelect (Some (uploadedImage [file_a] (load 0 5)))
      (handleDrop 10 [file_a] [load 0 5] init_state))"
proof -
  have m: "uploadedImage [file_a] (load 0 5)
             \<in> set (images (handleDrop 10 [file_a] [load 0 5] init_state))"
    by (simp add: ex_defs run_defs)
  from handleImageSelect_sets_selection
    [of "Some (uploadedImage [file_a] (load 0 5))" "handleDrop 10 [file_a] [load 0 5] init_state"] m
  show ?thesis by blast
qed

section \<open>Removing\<close>

text \<open>
  C10: in a reachable state, removing an image of the batch that is not the
  selected one leaves the selection as it was; the list loses the images with that id,
  which is exactly one image when the ids are distinct.
\<close>

theorem removeImage_other_keeps_selection:
  assumes "reachable maxImages s"
    and "i \<in> set (map img_id (images s))"
    and "map_option img_id (selectedImage s) \<noteq> Some i"
  shows "selectedImage (removeImage i s) = selectedImage s \<and>
         images (removeImage i s) = filter (\<lambda>img. img_id img \<noteq> i) (images s) \<and>
         (distinct (map img_id (images s)) \<longrightarrow>
            length (images (removeImage i s)) + 1 = length (images s))"
proof -
  from assms(2) have "images s \<noteq> []" by auto
  with reachable_selected [OF assms(1)] have sel: "selectedImage s \<noteq> None" by blast
  have a: "selectedImage (removeImage i s) = selectedImage s"
    using sel assms(3)
    by (cases "selectedImage s") (simp_all add: removeImage_def Let_def handleImagesChange_selected)
  have b: "images (removeImage i s) = filter (\<lambda>img. img_id img \<noteq> i) (images s)"
    using assms(3) by (simp add: removeImage_def Let_def)
  from a b filter_distinct_length [of img_id "images s" i] assms(2) show ?thesis by simp
qed

theorem removeImage_other_keeps_selection_witness:
  "reachable 10 (handleDrop 10 [file_a, file_b] [load 1 5, load 0 7] init_state) \<and>
   (7, 0) \<in> set (map img_id (images (handleDrop 10 [file_a, file_b] [load 1 5, load 0 7] init_state))) \<and>
   map_option img_id (selectedImage (handleDrop 10 [file_a, file_b] [load 1 5, load 0 7] init_state))
     = Some (5, 1) \<and>
   selectedImage (removeImage (7, 0) (handleDrop 10 [file_a, file_b] [load 1 5, load 0 7] init_state))
     = selectedImage (handleDrop 10 [file_a, file_b] [load 1 5, load 0 7] init_state) \<and>
   length (images (removeImage (7, 0) (handleDrop 10 [file_a, file_b] [load 1 5, load 0 7] init_state))) = 1"
proof -
  let ?s = "handleDrop 10 [file_a, file_b] [load 1 5, load 0 7] init_state"
  have "valid_schedule (length (filesToProcess 10 [] [file_a, file_b])) [load 1 5, load 0 7]"
    by (simp add: ex_defs)
  from r_drop [OF r_init this] have r: "reachable 10 ?s" .
  have i: "(7, 0) \<in> set (map img_id (images ?s))" by (simp add: ex_defs run_defs)
  have sel: "map_option img_id (selectedImage ?s) = Some (5, 1)" by (simp add: ex_defs run_defs)
  have n: "map_option img_id (selectedImage ?s) \<noteq> Some (7, 0)" unfolding sel by simp
  have d: "distinct (map img_id (images ?s))" "length (images ?s) = 2"
    by (simp_all add: ex_defs run_defs)
  from removeImage_other_keeps_selection [OF r i n]
  have k: "selectedImage (removeImage (7, 0) ?s) = selectedImage ?s"
    and l: "distinct (map img_id (images ?s)) \<longrightarrow>
            length (images (removeImage (7, 0) ?s)) + 1 = length (images ?s)"
    by blast+
  from l d have "length (images (removeImage (7, 0) ?s)) = 1" by linarith
  with r i sel k show ?thesis by blast
qed

section \<open>The format distribution\<close>

lemmas agg_defs = image_named_def detection_def analysed_def result_of_def

lemma update_bump_sum:
  "sum_list (map snd (AList.update k (Suc (case map_of acc k of None \<Rightarrow> 0 | Some n \<Rightarrow> n)) acc))
     = Suc (sum_list (map snd acc))"
  by (induction acc) auto

lemma foldl_counting:
  assumes "\<And>acc x. g (f acc x) = g acc + (1::nat)"
  shows "g (foldl f acc xs) = g acc + length xs"
  by (induction xs arbitrary: acc) (simp_all add: assms)

lemma formats_fold_sum:
  "sum_list (map snd (foldl (\<lambda>acc img.
        let ext = file_ext (img_name img)
        in AList.update ext ((case map_of acc ext of None \<Rightarrow> 0 | Some n \<Rightarrow> n) + 1) acc)
      acc0 imgs)) = sum_list (map snd acc0) + length imgs"
  by (rule foldl_counting) (simp add: Let_def update_bump_sum)

lemma mset_Object_entries: "mset (Object_entries obj) = mset obj"
  by (simp add: Object_entries_def)

lemma sum_list_mset_cong:
  assumes "mset xs = mset ys"
  shows "sum_list (map g xs) = (sum_list (map g ys) :: nat)"
proof -
  from assms have "sum_mset (mset (map g xs)) = sum_mset (mset (map g ys))"
    by (simp only: mset_map)
  then show ?thesis by (simp only: sum_mset_sum_list)
qed

lemma formatAnalysis_sum:
  "sum_list (map snd (formatAnalysis imgs)) = length imgs"
proof -
  let ?formats = "foldl (\<lambda>acc img.
        let ext = file_ext (img_name img)
        in AList.update ext ((case map_of acc ext of None \<Rightarrow> 0 | Some n \<Rightarrow> n) + (1::nat)) acc)
      [] imgs"
  have "sum_list (map snd (Object_entries ?formats)) = sum_list (map snd ?formats)"
    by (rule sum_list_mset_cong) (rule mset_Object_entries)
  also have "\<dots> = length imgs"
    using formats_fold_sum [of "[]" imgs] by simp
  finally show ?thesis by (simp only: formatAnalysis_def Let_def)
qed

lemma split_nonempty: "split d s \<noteq> []"
  by (induction s) (auto split: list.splits)

lemma last_split_no_sep: "d \<notin> set s \<Longrightarrow> split d s = [s]"
  by (induction s) (auto split: list.splits)

lemma split_two:
  "d \<in> set s \<Longrightarrow> \<exists>x y ys. split d s = x # y # ys"
proof (induction s)
  case Nil
  then show ?case by simp
next
  case (Cons c s)
  show ?case
  proof (cases "c = d")
    case True
    then show ?thesis by (cases "split d s") (auto simp: split_nonempty)
  next
    case False
    with Cons.prems have "d \<in> set s" by simp
    from Cons.IH [OF this] False show ?thesis by auto
  qed
qed

lemma last_split_append:
  "last (split d (pre @ d # ext)) = last (split d ext)"
proof (induction pre)
  case Nil
  then show ?case by (simp add: split_nonempty)
next
  case (Cons c pre)
  have "d \<in> set (pre @ d # ext)" by simp
  from split_two [OF this] obtain x y ys where "split d (pre @ d # ext) = x # y # ys" by blast
  with Cons show ?case by simp
qed

lemma file_ext_dot:
  assumes "CHR ''.'' \<notin> set ext" "ext \<noteq> []"
  shows "file_ext (pre @ CHR ''.'' # ext) = toUpperCase ext"
  using assms
  by (simp add: file_ext_def Let_def last_split_append last_split_no_sep toUpperCase_def)

lemma file_ext_no_dot:
  assumes "CHR ''.'' \<notin> set nm" "nm \<noteq> []"
  shows "file_ext nm = toUpperCase nm"
  using assms
  by (simp add: file_ext_def Let_def last_split_no_sep toUpperCase_def)

text \<open>
  The keys of the format dictionary are never names that an object inherits, so the read
  \<^verbatim>\<open>acc[ext]\<close> in \<^verbatim>\<open>formatAnalysis\<close> finds own properties only.
\<close>

lemma upper_char_not_small:
  "upper_char c \<notin> set ''abcdefghijklmnopqrstuvwxyz''"
  by (simp add: upper_char_def)

lemma toUpperCase_no_small:
  "set (toUpperCase s) \<inter> set ''abcdefghijklmnopqrstuvwxyz'' = {}"
  using upper_char_not_small by (auto simp: toUpperCase_def simp del: set_simps)

lemma prototype_key_small:
  "k \<in> set Object_prototype_keys \<Longrightarrow> set k \<inter> set ''abcdefghijklmnopqrstuvwxyz'' \<noteq> {}"
  by (auto simp: Object_prototype_keys_def)

lemma file_ext_own:
  "file_ext nm \<notin> set Object_prototype_keys"
proof
  assume a: "file_ext nm \<in> set Object_prototype_keys"
  show False
  proof (cases "toUpperCase (last (split (CHR ''.'') nm)) = []")
    case True
    then have "file_ext nm = ''UNKNOWN''" by (simp add: file_ext_def Let_def)
    with a show False by (simp add: Object_prototype_keys_def)
  next
    case False
    then have "file_ext nm = toUpperCase (last (split (CHR ''.'') nm))"
      by (simp add: file_ext_def Let_def)
    with a prototype_key_small [OF a] toUpperCase_no_small [of "last (split (CHR ''.'') nm)"]
    show False by simp
  qed
qed

lemma formatAnalysis_scenario:
  "formatAnalysis [image_named ''a.jpg'', image_named ''b.PNG'', image_named ''c.jpg'']
     = [(''JPG'', 2), (''PNG'', 1)]"
  by (simp add: formatAnalysis_def file_ext_def toUpperCase_def upper_char_def Object_entries_def
      is_array_index_def is_digit_def image_named_def Let_def)

text \<open>
  C5: the claim that a name without a dot goes to the bucket \<^verbatim>\<open>UNKNOWN\<close>. The counts
  do sum to the number of images, and a name with a dot goes to its upper-cased extension;
  but \<^verbatim>\<open>name.split('.').pop()\<close> of a name without a dot is the whole name, so the
  fallback \<^verbatim>\<open>|| 'UNKNOWN'\<close> is reached only by a name that is empty or ends in a dot.
  The image \<^verbatim>\<open>README\<close> is counted under \<^verbatim>\<open>README\<close>.
\<close>

theorem formatAnalysis_no_extension:
  "CHR ''.'' \<notin> set ''README'' \<and>
   formatAnalysis [image_named ''README''] = [(''README'', 1)]"
  by (simp add: formatAnalysis_def file_ext_def toUpperCase_def upper_char_def Object_entries_def
      is_array_index_def is_digit_def image_named_def Let_def)

section \<open>Confidence figures\<close>

lemma js_div_count_Num [simp]:
  "n \<noteq> 0 \<Longrightarrow> js_div_count rnd (Num a) n = rnd (a / real n)"
  by (simp add: js_div_count_def)

lemma js_div_count_zero [simp]: "js_div_count rnd (Num 0) 0 = NaN"
  by (simp add: js_div_count_def)

lemma js_div_count_NaN [simp]: "js_div_count rnd NaN n = NaN"
  by (simp add: js_div_count_def)

lemma js_add_NaN_right [simp]: "js_add rnd x NaN = NaN"
  by (cases x) simp_all

lemma conf_sum_Nil [simp]: "conf_sum rnd [] = Num 0"
  by (simp add: conf_sum_def)

lemma conf_sum_snoc:
  "conf_sum rnd (dets @ [d]) = js_add rnd (conf_sum rnd dets) (Num (det_conf d))"
  by (simp add: conf_sum_def)

text \<open>
  Where the rounding is the identity, that is in exact arithmetic, the reducer computes
  the sum of the confidences.
\<close>

lemma conf_sum_exact_acc:
  "foldl (\<lambda>avg det. js_add Num avg (Num (det_conf det))) (Num a) dets
     = Num (a + sum_list (map det_conf dets))"
  by (induction dets arbitrary: a) simp_all

lemma conf_sum_exact: "conf_sum Num dets = Num (sum_list (map det_conf dets))"
  by (simp add: conf_sum_def conf_sum_exact_acc)

text \<open>
  In exact arithmetic, the confidence of the summary of an entry with a detection is the
  mean of the confidences as a percentage, rounded to the nearest integer.
\<close>

lemma summary_confidence_exact:
  assumes "currentImageAnalysis sel (Some r) = Some cur"
    and "ai_detections cur \<noteq> []"
  shows "confidence (summary (analysisData Num sel (Some r))) =
           Num (of_int \<lfloor>sum_list (map det_conf (ai_detections cur)) /
                          real (length (ai_detections cur)) * 100 + 1 / 2\<rfloor>)"
  using assms by (simp add: analysisData_def conf_sum_exact)

lemma summary_confidence_exact_scenario:
  "confidence (summary (analysisData Num (Some (image_named ''x.jpg''))
      (Some (result_of [analysed ''x.jpg'' [detection ''person'' (8 / 10), detection ''hat'' (6 / 10)]]))))
     = Num 70"
  by (simp add: analysisData_def currentImageAnalysis_def conf_sum_def agg_defs)

text \<open>Whatever the rounding, an entry without detections gives \<^verbatim>\<open>NaN\<close>.\<close>

lemma summary_confidence_no_detections:
  assumes "currentImageAnalysis sel (Some r) = Some cur"
    and "ai_detections cur = []"
  shows "confidence (summary (analysisData rnd sel (Some r))) = NaN"
  using assms by (simp add: analysisData_def)

text \<open>
  C6: the claim that the confidence of the summary is 0, and never \<^verbatim>\<open>NaN\<close>, when
  the matching entry has no detections. With at least one detection the figure is the
  rounded percentage of the mean; with none the source divides 0 by 0 and rounds
  \<^verbatim>\<open>NaN\<close>.
\<close>

theorem summary_confidence_nan:
  "currentImageAnalysis (Some (image_named ''x.jpg'')) (Some (result_of [analysed ''x.jpg'' []]))
     = Some (analysed ''x.jpg'' []) \<and>
   ai_detections (analysed ''x.jpg'' []) = [] \<and>
   confidence (summary (analysisData rnd (Some (image_named ''x.jpg''))
      (Some (result_of [analysed ''x.jpg'' []])))) = NaN"
  by (simp add: analysisData_def currentImageAnalysis_def agg_defs)

lemma fold_means_NaN:
  "foldl (\<lambda>total img. js_add rnd total
        (js_div_count rnd (conf_sum rnd (ai_detections img)) (length (ai_detections img))))
      NaN imgs = NaN"
  by (induction imgs) simp_all

lemma fold_means_exact:
  "list_all (\<lambda>img. ai_detections img \<noteq> []) imgs \<Longrightarrow>
   foldl (\<lambda>total img. js_add Num total
        (js_div_count Num (conf_sum Num (ai_detections img)) (length (ai_detections img))))
      (Num a) imgs = Num (a + sum_list (map image_mean imgs))"
  by (induction imgs arbitrary: a) (simp_all add: image_mean_def conf_sum_exact)

lemma fold_means_empty:
  "\<not> list_all (\<lambda>img. ai_detections img \<noteq> []) imgs \<Longrightarrow>
   foldl (\<lambda>total img. js_add rnd total
        (js_div_count rnd (conf_sum rnd (ai_detections img)) (length (ai_detections img))))
      t imgs = NaN"
proof (induction imgs arbitrary: t)
  case Nil
  then show ?case by simp
next
  case (Cons img imgs)
  show ?case
  proof (cases "ai_detections img = []")
    case True
    then show ?thesis by (simp add: fold_means_NaN)
  next
    case False
    with Cons show ?thesis by simp
  qed
qed

text \<open>
  In exact arithmetic, when every entry has a detection, the average confidence of the
  dashboard is the mean of the per-image means as a percentage, rounded to the nearest
  integer.
\<close>

lemma averageConfidence_two_level_exact:
  assumes "ar_images r \<noteq> []"
    and "list_all (\<lambda>img. ai_detections img \<noteq> []) (ar_images r)"
  shows "averageConfidence (dashboard (analysisData Num sel (Some r))) =
           Num (of_int \<lfloor>sum_list (map image_mean (ar_images r)) / real (length (ar_images r)) * 100
                          + 1 / 2\<rfloor>)"
  using assms by (simp add: analysisData_def fold_means_exact)

lemma averageConfidence_exact_scenario:
  "averageConfidence (dashboard (analysisData Num None
      (Some (result_of [analysed ''x.jpg'' (replicate 10 (detection ''person'' 1)),
                        analysed ''y.jpg'' [detection ''person'' 0]])))) = Num 50"
  by (simp add: analysisData_def conf_sum_def agg_defs eval_nat_numeral)

text \<open>
  Whatever the rounding, no entry at all or an entry without detections gives \<^verbatim>\<open>NaN\<close>.
\<close>

lemma averageConfidence_NaN:
  assumes "ar_images r = [] \<or> \<not> list_all (\<lambda>img. ai_detections img \<noteq> []) (ar_images r)"
  shows "averageConfidence (dashboard (analysisData rnd sel (Some r))) = NaN"
proof -
  let ?t = "foldl (\<lambda>total img. js_add rnd total
        (js_div_count rnd (conf_sum rnd (ai_detections img)) (length (ai_detections img))))
      (Num 0) (ar_images r)"
  from assms have "js_div_count rnd ?t (length (ar_images r)) = NaN"
  proof
    assume "ar_images r = []"
    then show ?thesis by simp
  next
    assume "\<not> list_all (\<lambda>img. ai_detections img \<noteq> []) (ar_images r)"
    from fold_means_empty [OF this, of rnd "Num 0"] show ?thesis by simp
  qed
  then show ?thesis by (simp add: analysisData_def)
qed

text \<open>
  C7: the claim that entries without detections are left out of the average
  confidence of the dashboard, and that the figure is 0 when no entry has detections. The
  figure is the rounded percentage of the mean of the per-image means when every entry
  has a detection; an entry without detections contributes \<^verbatim>\<open>0 / 0\<close>, and the figure is
  \<^verbatim>\<open>NaN\<close>.
\<close>

theorem averageConfidence_nan:
  "averageConfidence (dashboard (analysisData rnd None
      (Some (result_of [analysed ''x.jpg'' [detection ''person'' 1], analysed ''y.jpg'' []])))) = NaN"
proof -
  have "\<not> list_all (\<lambda>img. ai_detections img \<noteq> [])
          (ar_images (result_of [analysed ''x.jpg'' [detection ''person'' 1], analysed ''y.jpg'' []]))"
    by (simp add: agg_defs)
  then have "ar_images (result_of [analysed ''x.jpg'' [detection ''person'' 1], analysed ''y.jpg'' []]) = []
      \<or> \<not> list_all (\<lambda>img. ai_detections img \<noteq> [])
          (ar_images (result_of [analysed ''x.jpg'' [detection ''person'' 1], analysed ''y.jpg'' []]))"
    by (rule disjI2)
  then show ?thesis by (rule averageConfidence_NaN)
qed

section \<open>The detection distribution\<close>

lemma foldl_concat_map:
  "foldl (\<lambda>acc x. foldl f acc (g x)) a xs = foldl f a (concat (map g xs))"
  by (induction xs arbitrary: a) simp_all

lemma first_seen_snoc:
  "first_seen (xs @ [x]) = (if x \<in> set xs then first_seen xs else first_seen xs @ [x])"
  by (simp add: first_seen_def)

lemma set_first_seen [simp]: "set (first_seen xs) = set xs"
  by (simp add: first_seen_def)

lemma distinct_first_seen [simp]: "distinct (first_seen xs)"
  by (simp add: first_seen_def)

lemma map_of_keyed:
  "map_of (map (\<lambda>k. (k, f k)) ks) k = (if k \<in> set ks then Some (f k) else None)"
  by (induction ks) simp_all

lemma update_keyed_present:
  "distinct ks \<Longrightarrow> k \<in> set ks \<Longrightarrow>
   AList.update k v (map (\<lambda>x. (x, f x)) ks) = map (\<lambda>x. (x, if x = k then v else f x)) ks"
proof (induction ks)
  case Nil
  then show ?case by simp
next
  case (Cons a ks)
  show ?case
  proof (cases "a = k")
    case True
    with Cons.prems have "k \<notin> set ks" by simp
    then have "map (\<lambda>x. (x, f x)) ks = map (\<lambda>x. (x, if x = k then v else f x)) ks"
      by (intro map_cong) auto
    with True show ?thesis by simp
  next
    case False
    with Cons show ?thesis by simp
  qed
qed

lemma update_snoc_absent:
  "k \<notin> fst ` set xs \<Longrightarrow> AList.update k v (xs @ [(k, z)]) = xs @ [(k, v)]"
  by (induction xs) auto

lemma update_absent:
  "k \<notin> fst ` set xs \<Longrightarrow> AList.update k v xs = xs @ [(k, v)]"
  by (induction xs) auto

text \<open>The three cases of one step of the reducer.\<close>

lemma count_detection_absent:
  assumes "map_of acc (det_class_name d) = None"
    and "det_class_name d \<notin> set Object_prototype_keys"
  shows "count_detection rnd acc d =
           acc @ [(det_class_name d,
                   \<lparr>cnt_count = 1, cnt_totalConf = js_add rnd (Num 0) (Num (det_conf d))\<rparr>)]"
proof -
  from assms(1) have k: "det_class_name d \<notin> fst ` set acc"
    by (simp add: map_of_eq_None_iff)
  show ?thesis
    using assms k
    by (simp add: count_detection_def Let_def update_absent update_snoc_absent map_add_def
        del: js_add.simps)
qed

lemma count_detection_present:
  assumes "map_of acc (det_class_name d) = Some v"
  shows "count_detection rnd acc d =
           AList.update (det_class_name d)
             \<lparr>cnt_count = cnt_count v + 1,
              cnt_totalConf = js_add rnd (cnt_totalConf v) (Num (det_conf d))\<rparr> acc"
  using assms by (simp add: count_detection_def Let_def)

lemma count_detection_inherited:
  assumes "map_of acc (det_class_name d) = None"
    and "det_class_name d \<in> set Object_prototype_keys"
  shows "count_detection rnd acc d = acc"
  using assms by (simp add: count_detection_def Let_def)

lemma label_counter_other:
  "c \<noteq> det_class_name d \<Longrightarrow> label_counter rnd (dets @ [d]) c = label_counter rnd dets c"
  by (auto simp: label_counter_def)

lemma label_counter_same:
  "label_counter rnd (dets @ [d]) (det_class_name d) =
     \<lparr>cnt_count = cnt_count (label_counter rnd dets (det_class_name d)) + 1,
      cnt_totalConf =
        js_add rnd (cnt_totalConf (label_counter rnd dets (det_class_name d))) (Num (det_conf d))\<rparr>"
  by (simp add: label_counter_def conf_sum_snoc)

lemma count_detection_groups:
  assumes "det_class_name d \<notin> set Object_prototype_keys"
  shows "count_detection rnd (groups rnd dets) d = groups rnd (dets @ [d])"
proof (cases "det_class_name d \<in> set (map det_class_name dets)")
  case True
  let ?c = "det_class_name d"
  let ?ks = "first_seen (map det_class_name dets)"
  let ?v = "\<lparr>cnt_count = cnt_count (label_counter rnd dets ?c) + 1,
             cnt_totalConf = js_add rnd (cnt_totalConf (label_counter rnd dets ?c)) (Num (det_conf d))\<rparr>"
  have in_ks: "?c \<in> set ?ks" using True by simp
  have look: "map_of (groups rnd dets) ?c = Some (label_counter rnd dets ?c)"
    using in_ks by (simp add: groups_def map_of_keyed)
  have "count_detection rnd (groups rnd dets) d = AList.update ?c ?v (groups rnd dets)"
    using look by (rule count_detection_present)
  also have "\<dots> = map (\<lambda>x. (x, if x = ?c then ?v else label_counter rnd dets x)) ?ks"
    unfolding groups_def by (rule update_keyed_present) (use in_ks in simp_all)
  also have "\<dots> = map (\<lambda>x. (x, label_counter rnd (dets @ [d]) x)) ?ks"
    by (intro map_cong) (simp_all add: label_counter_other label_counter_same)
  also have "\<dots> = groups rnd (dets @ [d])"
    using True by (simp add: groups_def first_seen_snoc)
  finally show ?thesis .
next
  case False
  let ?c = "det_class_name d"
  let ?ks = "first_seen (map det_class_name dets)"
  have out: "?c \<notin> set ?ks" using False by simp
  have look: "map_of (groups rnd dets) ?c = None"
    using out by (simp add: groups_def map_of_keyed)
  have none: "filter (\<lambda>x. det_class_name x = ?c) dets = []"
  proof -
    have "det_class_name x \<noteq> ?c" if "x \<in> set dets" for x
    proof
      assume e: "det_class_name x = ?c"
      from that have "det_class_name x \<in> det_class_name ` set dets" by (rule imageI)
      then have "?c \<in> set (map det_class_name dets)" unfolding e by (simp only: set_map)
      with False show False by contradiction
    qed
    then show ?thesis by (simp add: filter_empty_conv)
  qed
  have "count_detection rnd (groups rnd dets) d =
          groups rnd dets @
          [(?c, \<lparr>cnt_count = 1, cnt_totalConf = js_add rnd (Num 0) (Num (det_conf d))\<rparr>)]"
    using look assms by (rule count_detection_absent)
  also have "\<dots> = map (\<lambda>x. (x, label_counter rnd (dets @ [d]) x)) ?ks
                     @ [(?c, label_counter rnd (dets @ [d]) ?c)]"
  proof -
    have "map (\<lambda>x. (x, label_counter rnd dets x)) ?ks
            = map (\<lambda>x. (x, label_counter rnd (dets @ [d]) x)) ?ks"
    proof (rule map_cong)
      fix x assume "x \<in> set ?ks"
      with out have "x \<noteq> ?c" by blast
      then show "(x, label_counter rnd dets x) = (x, label_counter rnd (dets @ [d]) x)"
        by (simp add: label_counter_other)
    qed simp
    moreover have "label_counter rnd (dets @ [d]) ?c
        = \<lparr>cnt_count = 1, cnt_totalConf = js_add rnd (Num 0) (Num (det_conf d))\<rparr>"
      using none by (simp add: label_counter_def conf_sum_def del: js_add.simps)
    ultimately show ?thesis by (simp add: groups_def)
  qed
  also have "\<dots> = groups rnd (dets @ [d])"
    using False by (simp add: groups_def first_seen_snoc)
  finally show ?thesis .
qed

lemma foldl_count_detection:
  "list_all (\<lambda>d. det_class_name d \<notin> set Object_prototype_keys) dets \<Longrightarrow>
   foldl (count_detection rnd) [] dets = groups rnd dets"
proof (induction dets rule: rev_induct)
  case Nil
  then show ?case by (simp add: groups_def first_seen_def)
next
  case (snoc d dets)
  then show ?case by (simp add: count_detection_groups)
qed

lemma Object_entries_plain:
  assumes "list_all (\<lambda>kv. \<not> is_array_index (fst kv)) obj"
  shows "Object_entries obj = obj"
proof -
  from assms have "filter (\<lambda>kv. is_array_index (fst kv)) obj = []"
    by (simp add: list_all_iff filter_empty_conv)
  moreover from assms have "filter (\<lambda>kv. \<not> is_array_index (fst kv)) obj = obj"
    by (simp add: list_all_iff filter_id_conv)
  ultimately show ?thesis by (simp add: Object_entries_def)
qed

lemma detection_entry_group:
  "detection_entry rnd (c, label_counter rnd dets c) = group_entry rnd dets c"
  by (simp add: detection_entry_def label_counter_def group_entry_def)

text \<open>
  In exact arithmetic the confidence of a group is the mean of the confidences of its
  detections as a percentage, rounded to the nearest integer.
\<close>

lemma group_entry_exact:
  assumes "c \<in> set (map det_class_name dets)"
  shows "entry_confidence (group_entry Num dets c) =
           Num (of_int \<lfloor>sum_list (map det_conf (filter (\<lambda>d. det_class_name d = c) dets)) /
                          real (length (filter (\<lambda>d. det_class_name d = c) dets)) * 100 + 1 / 2\<rfloor>)"
proof -
  from assms obtain d where "d \<in> set dets" "det_class_name d = c" by auto
  then have "filter (\<lambda>d. det_class_name d = c) dets \<noteq> []"
    by (auto simp: filter_empty_conv)
  then show ?thesis
    by (simp add: group_entry_def conf_sum_exact)
qed

lemma detectionData_plain:
  assumes "dets = concat (map ai_detections (ar_images r))"
    and "list_all (\<lambda>d. ordinary_name (det_class_name d)) dets"
  shows "detectionData rnd (Some r) =
           sort_key (\<lambda>e. - int (entry_count e))
             (map (group_entry rnd dets) (first_seen (map det_class_name dets)))"
proof -
  from assms(2) have np: "list_all (\<lambda>d. det_class_name d \<notin> set Object_prototype_keys) dets"
    by (simp add: list_all_iff ordinary_name_def)
  have f: "foldl (\<lambda>acc img. foldl (count_detection rnd) acc (ai_detections img)) [] (ar_images r)
             = groups rnd dets"
    unfolding assms(1) [symmetric] foldl_concat_map
    using foldl_count_detection [OF np] assms(1) by simp
  from assms(2) have "list_all (\<lambda>kv. \<not> is_array_index (fst kv)) (groups rnd dets)"
    by (auto simp: list_all_iff groups_def ordinary_name_def)
  then have e: "Object_entries (groups rnd dets) = groups rnd dets"
    by (rule Object_entries_plain)
  have "map (detection_entry rnd) (groups rnd dets)
          = map (group_entry rnd dets) (first_seen (map det_class_name dets))"
    unfolding groups_def map_map
    by (rule map_cong) (simp_all add: detection_entry_group)
  with f e show ?thesis by (simp add: detectionData_def)
qed

text \<open>
  The label of an ASCII class name: a first small letter becomes the capital letter, and
  no other character changes.
\<close>

lemma capitalize_length [simp]: "length (capitalize c) = length c"
  by (cases c) (simp_all add: capitalize_def toUpperCase_def)

lemma capitalize_tail: "drop 1 (capitalize c) = drop 1 c"
  by (cases c) (simp_all add: capitalize_def toUpperCase_def)

lemma capitalize_head:
  "capitalize (x # xs) = upper_char x # xs"
  by (simp add: capitalize_def toUpperCase_def)

lemmas dist_defs = detectionData_def count_detection_def detection_entry_def capitalize_def
  toUpperCase_def upper_char_def Object_entries_def Object_prototype_keys_def
  is_array_index_def is_digit_def int_of_digits_def js_div_count_def Let_def

text \<open>
  The instances below take confidences that are halves and quarters. Every sum, quotient
  and product that occurs on them is a double, so the identity stands for the rounding.
\<close>

text \<open>
  C8: the claim that the labels of the distribution keep the case of the input. The
  entries are built with \<^verbatim>\<open>name.charAt(0).toUpperCase() + name.slice(1)\<close>: the class
  \<^verbatim>\<open>person\<close> is listed as \<^verbatim>\<open>Person\<close>.
\<close>

theorem detectionData_label_counterexample:
  "map det_class_name (concat (map ai_detections
      (ar_images (result_of [analysed ''x.jpg'' [detection ''person'' (1 / 2)]])))) = [''person''] \<and>
   detectionData Num (Some (result_of [analysed ''x.jpg'' [detection ''person'' (1 / 2)]]))
     = [\<lparr>entry_name = ''Person'', entry_count = 1, entry_confidence = Num 50\<rparr>]"
  by (simp add: dist_defs agg_defs)

text \<open>
  Ties between class names that are array indices follow the numeric order of the names,
  not the order in which they were first seen.
\<close>

lemma detectionData_index_names:
  "map entry_name (detectionData Num (Some (result_of
      [analysed ''x.jpg'' [detection ''2'' (1 / 2), detection ''1'' (1 / 2)]]))) = [''1'', ''2'']"
  by (simp add: dist_defs agg_defs)

text \<open>
  C8, as amended: for class names that are ordinary (ASCII, no array index, no name of an
  inherited property), the distribution has one entry for each distinct class name, the
  names compared as given. Its label is the class name with the first character
  upper-cased; its count is the number of detections of that class over all images; its
  confidence is the mean as a rounded percentage in the arithmetic of the program: the
  confidences of those detections added in their order, the sum divided by the count and
  multiplied by 100, each result rounded to a double, and \<^verbatim>\<open>Math.round\<close> of the product.
  The entries are in falling order of count, entries of equal count in the order their
  classes were first seen. This holds whatever the rounding to doubles is.
\<close>

theorem detectionData_groups:
  assumes "dets = concat (map ai_detections (ar_images r))"
    and "list_all (\<lambda>d. ordinary_name (det_class_name d)) dets"
  shows "detectionData rnd (Some r) =
           sort_key (\<lambda>e. - int (entry_count e))
             (map (group_entry rnd dets) (first_seen (map det_class_name dets))) \<and>
         sorted_wrt (\<lambda>a b. entry_count b \<le> entry_count a) (detectionData rnd (Some r)) \<and>
         (\<forall>k. filter (\<lambda>e. entry_count e = k) (detectionData rnd (Some r)) =
               filter (\<lambda>e. entry_count e = k)
                 (map (group_entry rnd dets) (first_seen (map det_class_name dets))))"
proof -
  let ?gs = "map (group_entry rnd dets) (first_seen (map det_class_name dets))"
  let ?key = "\<lambda>e. - int (entry_count e)"
  have eq: "detectionData rnd (Some r) = sort_key ?key ?gs"
    using assms by (rule detectionData_plain)
  have "sorted (map ?key (sort_key ?key ?gs))" by (rule sorted_sort_key)
  then have srt: "sorted_wrt (\<lambda>a b. entry_count b \<le> entry_count a) (sort_key ?key ?gs)"
    by (simp add: sorted_map)
  have ties: "filter (\<lambda>e. entry_count e = k) (sort_key ?key ?gs)
                = filter (\<lambda>e. entry_count e = k) ?gs" for k
    using sort_key_stable [of ?key "- int k" ?gs] by simp
  from eq srt ties show ?thesis by simp
qed

theorem detectionData_groups_witness:
  "list_all (\<lambda>d. ordinary_name (det_class_name d))
     (concat (map ai_detections (ar_images (result_of
        [analysed ''x.jpg'' [detection ''person'' (1 / 2), detection ''hat'' (1 / 2)],
         analysed ''y.jpg'' [detection ''hat'' 1, detection ''vest'' (1 / 4)]])))) \<and>
   detectionData Num (Some (result_of
        [analysed ''x.jpg'' [detection ''person'' (1 / 2), detection ''hat'' (1 / 2)],
         analysed ''y.jpg'' [detection ''hat'' 1, detection ''vest'' (1 / 4)]]))
     = [\<lparr>entry_name = ''Hat'', entry_count = 2, entry_confidence = Num 75\<rparr>,
        \<lparr>entry_name = ''Person'', entry_count = 1, entry_confidence = Num 50\<rparr>,
        \<lparr>entry_name = ''Vest'', entry_count = 1, entry_confidence = Num 25\<rparr>]"
proof -
  let ?r = "result_of
        [analysed ''x.jpg'' [detection ''person'' (1 / 2), detection ''hat'' (1 / 2)],
         analysed ''y.jpg'' [detection ''hat'' 1, detection ''vest'' (1 / 4)]]"
  let ?dets = "[detection ''person'' (1 / 2), detection ''hat'' (1 / 2),
                detection ''hat'' 1, detection ''vest'' (1 / 4)]"
  have d: "?dets = concat (map ai_detections (ar_images ?r))"
    by (simp add: agg_defs)
  have h: "list_all (\<lambda>d. ordinary_name (det_class_name d)) ?dets"
    by (simp add: ordinary_name_def ascii_def is_array_index_def is_digit_def
        Object_prototype_keys_def detection_def)
  from detectionData_groups [OF d h, of Num]
  have "detectionData Num (Some ?r) =
          sort_key (\<lambda>e. - int (entry_count e))
            (map (group_entry Num ?dets) (first_seen (map det_class_name ?dets)))"
    by blast
  also have "\<dots> = [\<lparr>entry_name = ''Hat'', entry_count = 2, entry_confidence = Num 75\<rparr>,
        \<lparr>entry_name = ''Person'', entry_count = 1, entry_confidence = Num 50\<rparr>,
        \<lparr>entry_name = ''Vest'', entry_count = 1, entry_confidence = Num 25\<rparr>]"
    by (simp add: group_entry_def first_seen_def capitalize_def toUpperCase_def upper_char_def
        conf_sum_def js_div_count_def detection_def)
  finally have e: "detectionData Num (Some ?r) =
       [\<lparr>entry_name = ''Hat'', entry_count = 2, entry_confidence = Num 75\<rparr>,
        \<lparr>entry_name = ''Person'', entry_count = 1, entry_confidence = Num 50\<rparr>,
        \<lparr>entry_name = ''Vest'', entry_count = 1, entry_confidence = Num 25\<rparr>]" .
  from h d e show ?thesis by (simp only: simp_thms)
qed

section \<open>No analysis result\<close>

text \<open>
  C9: without an analysis result the panel derives, for every batch and selection, the
  fixed placeholder description, no labels, confidence 0, a dashboard of 0 detections,
  average confidence 0 and processing time \<^verbatim>\<open>0s\<close>, and an empty detection distribution.
  All functions involved are total, so nothing fails.
\<close>

theorem AnalysisPanel_no_analysis:
  "AnalysisPanel rnd imgs sel None =
     \<lparr>vm_formatData = formatAnalysis imgs,
      vm_analysisData =
        \<lparr>summary = \<lparr>description = ''Upload and analyze images to see results here.'',
                    labels = [], confidence = Num 0\<rparr>,
         dashboard = \<lparr>detectionCount = 0, averageConfidence = Num 0, processingTime = ''0s''\<rparr>\<rparr>,
      vm_detectionData = []\<rparr>"
  by (simp add: AnalysisPanel_def analysisData_def detectionData_def)

end
